theory Spec2Isabelle
  imports Main "HOL-Library.Word"
begin

section \<open>JavaScript strings\<close>

text \<open>
  A JavaScript string is a sequence of UTF-16 code units and \<open>.length\<close> counts code
  units, so a string is a list of 16-bit words and \<open>.length\<close> is \<open>length\<close>.
  \<open>js\<close> writes an ASCII literal as such a string.
\<close>

type_synonym jschar = "16 word"
type_synonym jsstring = "jschar list"

definition js :: "string \<Rightarrow> jsstring" where
  "js s = map (\<lambda>c. of_nat (of_char c)) s"

text \<open>
  The characters matched by the regular expression class \<open>\s\<close> and removed by
  \<open>String.prototype.trim\<close>: ECMAScript's WhiteSpace and LineTerminator productions
  (TAB, LF, VT, FF, CR, SP, NBSP, U+1680, U+2000..U+200A, LS, PS, U+202F, U+205F,
  U+3000, BOM).
\<close>

definition isWhiteSpace :: "jschar \<Rightarrow> bool" where
  "isWhiteSpace c \<longleftrightarrow>
     c = 0x09 \<or> c = 0x0A \<or> c = 0x0B \<or> c = 0x0C \<or> c = 0x0D \<or> c = 0x20 \<or> c = 0xA0
     \<or> c = 0x1680 \<or> (0x2000 \<le> c \<and> c \<le> 0x200A) \<or> c = 0x2028 \<or> c = 0x2029
     \<or> c = 0x202F \<or> c = 0x205F \<or> c = 0x3000 \<or> c = 0xFEFF"

text \<open>The character class \<open>[.?!]\<close> of the lookbehind.\<close>

definition isSentenceEnd :: "jschar \<Rightarrow> bool" where
  "isSentenceEnd c \<longleftrightarrow> c = 0x2E \<or> c = 0x3F \<or> c = 0x21"

text \<open>The one-character string \<open>" "\<close> appended after every sentence.\<close>

definition space :: jschar where
  "space = 0x20"

text \<open>\<open>s.trim()\<close>: the string without its leading and trailing white space.\<close>

definition trim :: "jsstring \<Rightarrow> jsstring" where
  "trim s = rev (dropWhile isWhiteSpace (rev (dropWhile isWhiteSpace s)))"

section \<open>The chunker (\<open>chunkText\<close>)\<close>

text \<open>
  \<open>text.split(/(?<=[.?!])\s+/)\<close>. The expression matches at a position exactly when
  the code unit before it is one of \<open>. ? !\<close> and the code unit at it is white space,
  and the greedy \<open>\s+\<close> then takes the whole run of white space. \<open>split\<close> scans from
  the left, cuts the text at each match and drops the matched run; the piece after the
  last match is always emitted, so the result is never empty: the empty text gives the
  one-element array holding the empty string, and a text ending in a match gives a last
  piece that is empty.
\<close>

function split_sentences :: "jsstring \<Rightarrow> jsstring list" where
  "split_sentences [] = [[]]"
| "split_sentences (c # rest) =
     (if isSentenceEnd c \<and> rest \<noteq> [] \<and> isWhiteSpace (hd rest)
      then [c] # split_sentences (dropWhile isWhiteSpace rest)
      else (case split_sentences rest of
              [] \<Rightarrow> [[c]]
            | s # ss \<Rightarrow> (c # s) # ss))"
  by pat_completeness auto
termination
  by (relation "measure length") (auto simp: le_imp_less_Suc length_dropWhile_le)

text \<open>
  One round of the \<open>for (const sentence of sentences)\<close> loop, on the pair of the
  \<open>chunks\<close> array and the \<open>currentChunk\<close> buffer. An empty string is falsy, so
  \<open>if (currentChunk)\<close> is the test \<open>currentChunk \<noteq> []\<close>.
\<close>

definition chunk_step ::
  "int \<Rightarrow> jsstring list \<times> jsstring \<Rightarrow> jsstring \<Rightarrow> jsstring list \<times> jsstring" where
  "chunk_step chunkSize st sentence =
     (case st of (chunks, currentChunk) \<Rightarrow>
        if int (length (currentChunk @ sentence)) > chunkSize
        then (if currentChunk \<noteq> [] then chunks @ [trim currentChunk] else chunks,
              sentence @ [space])
        else (chunks, currentChunk @ sentence @ [space]))"

definition chunkText :: "jsstring \<Rightarrow> int \<Rightarrow> jsstring list" where
  "chunkText text chunkSize =
     (case foldl (chunk_step chunkSize) ([], []) (split_sentences text) of
        (chunks, currentChunk) \<Rightarrow>
          if currentChunk \<noteq> [] then chunks @ [trim currentChunk] else chunks)"

text \<open>The default value of the parameter \<open>chunkSize\<close>.\<close>

definition default_chunkSize :: int where
  "default_chunkSize = 300"

section \<open>Errors\<close>

text \<open>
  Every rejection and exception of the two programs is a value of \<open>err\<close>; the message
  texts are left out, except the HTTP status.
\<close>

datatype err =
    TransportError    \<comment> \<open>the request's \<open>"error"\<close> event\<close>
  | HttpError nat     \<comment> \<open>a status outside 200..299\<close>
  | ParseError        \<comment> \<open>\<open>JSON.parse\<close> threw\<close>
  | MissingData       \<comment> \<open>\<open>"Embeddings response missing data"\<close>\<close>
  | TypeError         \<comment> \<open>a property read or an iteration on \<open>undefined\<close> or \<open>null\<close>\<close>
  | QdrantError       \<comment> \<open>a rejected call of the vector index client\<close>
  | GenerationError   \<comment> \<open>\<open>generateContent\<close> or \<open>response.text()\<close> threw\<close>
  | RedisError        \<comment> \<open>a rejected Redis command\<close>

section \<open>The embedding service\<close>

text \<open>
  What the embedding service sends back, as far as the programs look at it. \<open>'v\<close> is the
  type of an embedding (an array of numbers, never inspected). An element of \<open>data\<close> is
  \<open>NullItem\<close> when it is \<open>null\<close> or \<open>undefined\<close> (reading \<open>.embedding\<close> throws),
  and \<open>Item e\<close> otherwise, with \<open>e = None\<close> when its \<open>embedding\<close> is not an array.
  The parsed body is \<open>NoData\<close> when it has no iterable \<open>data\<close> (this includes a body
  that is \<open>null\<close>), and \<open>Data items\<close> otherwise. A reply is a transport failure or a
  status code with the body, \<open>None\<close> when the body is not JSON.
\<close>

datatype 'v item = NullItem | Item "'v option"

datatype 'v parsed = NoData | Data "'v item list"

datatype 'v http_reply = NetError | Http nat "'v parsed option"

definition isOk :: "nat \<Rightarrow> bool" where
  "isOk statusCode \<longleftrightarrow> 200 \<le> statusCode \<and> statusCode < 300"

text \<open>
  \<open>requestJinaEmbeddings\<close> (the ingestion script): what the promise settles to, given
  the reply. It resolves with the parsed body as it is.
\<close>

fun requestJinaEmbeddings :: "'v http_reply \<Rightarrow> err + 'v parsed" where
  "requestJinaEmbeddings NetError = Inl TransportError"
| "requestJinaEmbeddings (Http statusCode body) =
     (if \<not> isOk statusCode then Inl (HttpError statusCode)
      else case body of
             None \<Rightarrow> Inl ParseError
           | Some parsed \<Rightarrow> Inr parsed)"

text \<open>
  \<open>getJinaEmbeddings\<close> (the chat server, one text): it parses first, then looks at the
  status, then checks that \<open>data\<close> is a non-empty array whose first element has an array
  \<open>embedding\<close>, and resolves with that embedding.
\<close>

fun getJinaEmbeddings :: "'v http_reply \<Rightarrow> err + 'v" where
  "getJinaEmbeddings NetError = Inl TransportError"
| "getJinaEmbeddings (Http statusCode body) =
     (case body of
        None \<Rightarrow> if \<not> isOk statusCode then Inl (HttpError statusCode) else Inl ParseError
      | Some parsed \<Rightarrow>
          if \<not> isOk statusCode then Inl (HttpError statusCode)
          else (case parsed of
                  Data (Item (Some embedding) # _) \<Rightarrow> Inr embedding
                | _ \<Rightarrow> Inl MissingData))"

section \<open>The ingestion script (\<open>embedAndStore\<close>)\<close>

record article =
  title :: jsstring
  url :: jsstring
  content :: jsstring

text \<open>A point of the vector index; \<open>payload_text\<close> is \<open>None\<close> when \<open>chunks[index]\<close> is \<open>undefined\<close>.\<close>

record 'v point =
  point_id :: jsstring
  vector :: "'v option"
  payload_text :: "jsstring option"
  payload_article_title :: jsstring
  payload_article_url :: jsstring

text \<open>
  The outside world of the script: the reply to the \<open>k\<close>-th embedding request, the
  outcome of the \<open>k\<close>-th upsert call (\<open>None\<close> when it succeeds), and the \<open>k\<close>-th
  identifier that \<open>v4()\<close> generates for an article.
\<close>

record 'v services =
  jina :: "nat \<Rightarrow> jsstring list \<Rightarrow> 'v http_reply"
  qdrant_upsert :: "nat \<Rightarrow> 'v point list \<Rightarrow> err option"
  v4 :: "nat \<Rightarrow> jsstring"

text \<open>What the script does to the outside world, in order; \<open>Sleep ms\<close> is \<open>await sleep(ms)\<close>.\<close>

datatype 'v event =
    is_JinaRequest: JinaRequest "jsstring list"
  | is_Sleep: Sleep nat
  | is_Upsert: Upsert "'v point list"

record 'v run =
  allVectors :: "'v option list"
  trace :: "'v event list"

definition count_requests :: "'v event list \<Rightarrow> nat" where
  "count_requests tr = length (filter is_JinaRequest tr)"

definition count_upserts :: "'v event list \<Rightarrow> nat" where
  "count_upserts tr = length (filter is_Upsert tr)"

definition batchSize :: nat where
  "batchSize = 8"

definition upsertBatchSize :: nat where
  "upsertBatchSize = 100"

text \<open>\<open>xs.slice(start, stop)\<close> for \<open>0 \<le> start \<le> stop\<close>.\<close>

definition slice :: "'a list \<Rightarrow> nat \<Rightarrow> nat \<Rightarrow> 'a list" where
  "slice xs start stop = take (stop - start) (drop start xs)"

text \<open>
  \<open>for (const item of resp.data) allVectors.push(item.embedding)\<close>: the vectors pushed
  before a \<open>null\<close> item stay in \<open>allVectors\<close> when the read throws.
\<close>

fun push_embeddings :: "'v item list \<Rightarrow> 'v option list \<Rightarrow> err option \<times> 'v option list" where
  "push_embeddings [] vs = (None, vs)"
| "push_embeddings (NullItem # items) vs = (Some TypeError, vs)"
| "push_embeddings (Item embedding # items) vs = push_embeddings items (vs @ [embedding])"

text \<open>The body of the \<open>try\<close> block of the embedding loop: \<open>None\<close> when it reaches \<open>break\<close>.\<close>

definition try_embed :: "'v services \<Rightarrow> jsstring list \<Rightarrow> 'v run \<Rightarrow> err option \<times> 'v run" where
  "try_embed sv batch r =
     (let r1 = r\<lparr>trace := trace r @ [JinaRequest batch]\<rparr> in
      case requestJinaEmbeddings (jina sv (count_requests (trace r)) batch) of
        Inl e \<Rightarrow> (Some e, r1)
      | Inr NoData \<Rightarrow> (Some TypeError, r1)
      | Inr (Data items) \<Rightarrow>
          (case push_embeddings items (allVectors r1) of
             (Some e, vs) \<Rightarrow> (Some e, r1\<lparr>allVectors := vs\<rparr>)
           | (None, vs) \<Rightarrow> (None, r1\<lparr>allVectors := vs, trace := trace r1 @ [Sleep 200]\<rparr>)))"

text \<open>
  The \<open>while (true)\<close> loop around it, entered with \<open>attempt = 0\<close>. \<open>Inl (e, r)\<close> is
  \<open>throw err\<close>, with the state reached.
\<close>

function embed_retry ::
  "'v services \<Rightarrow> jsstring list \<Rightarrow> nat \<Rightarrow> 'v run \<Rightarrow> (err \<times> 'v run) + 'v run" where
  "embed_retry sv batch attempt r =
     (case try_embed sv batch r of
        (None, r') \<Rightarrow> Inr r'
      | (Some e, r') \<Rightarrow>
          if attempt + 1 \<ge> 3 then Inl (e, r')
          else embed_retry sv batch (attempt + 1)
                 (r'\<lparr>trace := trace r' @ [Sleep (500 * (attempt + 1))]\<rparr>))"
  by pat_completeness auto
termination
  by (relation "measure (\<lambda>(sv, batch, attempt, r). 3 - attempt)") auto

text \<open>\<open>for (let start = 0; start < chunks.length; start += batchSize)\<close>.\<close>

function embed_batches ::
  "'v services \<Rightarrow> jsstring list \<Rightarrow> nat \<Rightarrow> 'v run \<Rightarrow> (err \<times> 'v run) + 'v run" where
  "embed_batches sv chunks start r =
     (if start < length chunks
      then (case embed_retry sv (slice chunks start (start + batchSize)) 0 r of
              Inl f \<Rightarrow> Inl f
            | Inr r' \<Rightarrow> embed_batches sv chunks (start + batchSize) r')
      else Inr r)"
  by pat_completeness auto
termination
  by (relation "measure (\<lambda>(sv, chunks, start, r). length chunks - start)")
    (auto simp: batchSize_def)

text \<open>\<open>allVectors.map((vector, index) => ...)\<close>.\<close>

definition make_points ::
  "'v services \<Rightarrow> article \<Rightarrow> jsstring list \<Rightarrow> 'v option list \<Rightarrow> 'v point list" where
  "make_points sv a chunks vs =
     map (\<lambda>(index, v).
            \<lparr>point_id = v4 sv index,
             vector = v,
             payload_text = (if index < length chunks then Some (chunks ! index) else None),
             payload_article_title = title a,
             payload_article_url = url a\<rparr>)
         (enumerate 0 vs)"

text \<open>The retry loop of one upsert call, entered with \<open>attempt = 0\<close>.\<close>

function upsert_retry ::
  "'v services \<Rightarrow> 'v point list \<Rightarrow> nat \<Rightarrow> 'v run \<Rightarrow> (err \<times> 'v run) + 'v run" where
  "upsert_retry sv points attempt r =
     (case qdrant_upsert sv (count_upserts (trace r)) points of
        None \<Rightarrow> Inr (r\<lparr>trace := trace r @ [Upsert points]\<rparr>)
      | Some e \<Rightarrow>
          if attempt + 1 \<ge> 3 then Inl (e, r\<lparr>trace := trace r @ [Upsert points]\<rparr>)
          else upsert_retry sv points (attempt + 1)
                 (r\<lparr>trace := trace r @ [Upsert points, Sleep (500 * (attempt + 1))]\<rparr>))"
  by pat_completeness auto
termination
  by (relation "measure (\<lambda>(sv, points, attempt, r). 3 - attempt)") auto

text \<open>\<open>for (let start = 0; start < points.length; start += upsertBatchSize)\<close>.\<close>

function upsert_batches ::
  "'v services \<Rightarrow> 'v point list \<Rightarrow> nat \<Rightarrow> 'v run \<Rightarrow> (err \<times> 'v run) + 'v run" where
  "upsert_batches sv points start r =
     (if start < length points
      then (case upsert_retry sv (slice points start (start + upsertBatchSize)) 0 r of
              Inl f \<Rightarrow> Inl f
            | Inr r' \<Rightarrow>
                upsert_batches sv points (start + upsertBatchSize)
                  (r'\<lparr>trace := trace r' @ [Sleep 100]\<rparr>))
      else Inr r)"
  by pat_completeness auto
termination
  by (relation "measure (\<lambda>(sv, points, start, r). length points - start)")
    (auto simp: upsertBatchSize_def)

text \<open>
  The body of \<open>for (const article of articles)\<close>, from the trace so far: chunk, embed
  in batches, build the points, upsert them.
\<close>

definition process_article ::
  "'v services \<Rightarrow> article \<Rightarrow> 'v event list \<Rightarrow> (err \<times> 'v run) + 'v run" where
  "process_article sv a tr =
     (let chunks = chunkText (content a) default_chunkSize in
      if length chunks = 0 then Inr \<lparr>allVectors = [], trace = tr\<rparr>
      else (case embed_batches sv chunks 0 \<lparr>allVectors = [], trace = tr\<rparr> of
              Inl f \<Rightarrow> Inl f
            | Inr r \<Rightarrow> upsert_batches sv (make_points sv a chunks (allVectors r)) 0 r))"

text \<open>
  The equations of the four loops unfold without end; they are used by hand.
\<close>

declare embed_retry.simps [simp del]
declare embed_batches.simps [simp del]
declare upsert_retry.simps [simp del]
declare upsert_batches.simps [simp del]

text \<open>
  Example environments. \<open>flaky_services\<close>: the first two embedding requests and the
  first two upsert calls fail, every later one succeeds, and the service embeds a text as
  the text itself. \<open>down_services\<close>: every request gets status 503 without a JSON body
  and every upsert fails. \<open>once_failing_services\<close>: only the first embedding request
  fails. \<open>short_services\<close>: every request is answered with status 200 and a single
  embedding, whatever the number of texts submitted.
\<close>

definition echo_reply :: "jsstring list \<Rightarrow> jsstring http_reply" where
  "echo_reply batch = Http 200 (Some (Data (map (\<lambda>t. Item (Some t)) batch)))"

definition flaky_services :: "jsstring services" where
  "flaky_services =
     \<lparr>jina = (\<lambda>k batch. if k < 2 then NetError else echo_reply batch),
      qdrant_upsert = (\<lambda>k points. if k < 2 then Some QdrantError else None),
      v4 = (\<lambda>k. js ''id'')\<rparr>"

definition down_services :: "jsstring services" where
  "down_services =
     \<lparr>jina = (\<lambda>k batch. Http 503 None),
      qdrant_upsert = (\<lambda>k points. Some QdrantError),
      v4 = (\<lambda>k. js ''id'')\<rparr>"

definition once_failing_services :: "jsstring services" where
  "once_failing_services =
     \<lparr>jina = (\<lambda>k batch. if k < 1 then NetError else echo_reply batch),
      qdrant_upsert = (\<lambda>k points. None),
      v4 = (\<lambda>k. js ''id'')\<rparr>"

definition short_services :: "jsstring services" where
  "short_services =
     \<lparr>jina = (\<lambda>k batch. Http 200 (Some (Data [Item (Some (js ''v''))]))),
      qdrant_upsert = (\<lambda>k points. None),
      v4 = (\<lambda>k. js ''id'')\<rparr>"

definition reliable_services :: "jsstring services" where
  "reliable_services =
     \<lparr>jina = (\<lambda>k batch. echo_reply batch),
      qdrant_upsert = (\<lambda>k points. None),
      v4 = (\<lambda>k. js ''id'')\<rparr>"

definition hi_article :: article where
  "hi_article = \<lparr>title = js ''Greeting'', url = js ''http://a/1'', content = js ''Hi.''\<rparr>"

definition nine_chunks :: "jsstring list" where
  "nine_chunks = [js ''c1'', js ''c2'', js ''c3'', js ''c4'', js ''c5'', js ''c6'', js ''c7'',
                  js ''c8'', js ''c9'']"

section \<open>The chat server\<close>

text \<open>
  A message of a transcript. Redis holds \<open>JSON.stringify(message)\<close>, and the history
  route reads it back with \<open>JSON.parse\<close>; the serialised form is kept abstract, as a
  value from which \<open>JSON_parse\<close> gets the message back.
\<close>

record message =
  sender :: jsstring
  message_text :: jsstring

datatype stored = JSON message

definition JSON_stringify :: "message \<Rightarrow> stored" where
  "JSON_stringify m = JSON m"


text \<open>
  The body of a chat request. The fields are strings when present; \<open>None\<close> is an absent
  field. \<open>!query\<close> and \<open>!sessionId\<close> hold for an absent field and for the empty string.
\<close>

record request =
  query :: "jsstring option"
  sessionId :: "jsstring option"

datatype response =
    BadRequest jsstring          \<comment> \<open>\<open>res.status(400).json({ error })\<close>\<close>
  | ChatReply jsstring jsstring  \<comment> \<open>\<open>res.json({ answer, sessionId })\<close>\<close>
  | ServerError jsstring         \<comment> \<open>\<open>res.status(500).json({ error })\<close>\<close>
  | HistoryReply "message list"  \<comment> \<open>\<open>res.json({ messages })\<close>\<close>

text \<open>
  The calls the server makes to the outside, in order. A search hit is the text of its
  payload, \<open>None\<close> when reading \<open>result.payload.text\<close> throws.
\<close>

datatype call =
    EmbedQuery jsstring
  | Search
  | Generate jsstring
  | RPush jsstring stored
  | LRange jsstring

fun is_redis :: "call \<Rightarrow> bool" where
  "is_redis (RPush key v) = True"
| "is_redis (LRange key) = True"
| "is_redis c = False"

definition count_redis :: "call list \<Rightarrow> nat" where
  "count_redis cs = length (filter is_redis cs)"

text \<open>
  The outside world of the server: the identifier \<open>v4()\<close> returns, the embedding
  service's reply to a query, the outcome of a search, the outcome of a generation, and
  whether the \<open>k\<close>-th Redis command succeeds.
\<close>

record 'v backend =
  new_uuid :: jsstring
  embed_reply :: "jsstring \<Rightarrow> 'v http_reply"
  search_reply :: "'v \<Rightarrow> err + jsstring option list"
  generate_reply :: "jsstring \<Rightarrow> err + jsstring"
  redis_ok :: "nat \<Rightarrow> bool"

text \<open>The server's state: the Redis lists by key (no list is the empty list) and the calls made.\<close>

record server =
  redis :: "jsstring \<Rightarrow> stored list"
  calls :: "call list"

definition historyKey :: "jsstring \<Rightarrow> jsstring" where
  "historyKey sid = js ''chat_history:'' @ sid"

text \<open>\<open>searchResponse.map((result) => result.payload.text)\<close>.\<close>

fun payload_texts :: "jsstring option list \<Rightarrow> jsstring list option" where
  "payload_texts [] = Some []"
| "payload_texts (None # hits) = None"
| "payload_texts (Some t # hits) =
     (case payload_texts hits of None \<Rightarrow> None | Some ts \<Rightarrow> Some (t # ts))"

text \<open>\<open>texts.join(sep)\<close>.\<close>

fun join :: "jsstring \<Rightarrow> jsstring list \<Rightarrow> jsstring" where
  "join sep [] = []"
| "join sep [t] = t"
| "join sep (t # ts) = t @ sep @ join sep ts"

definition separator :: jsstring where
  "separator = [0x0A, 0x0A] @ js ''---'' @ [0x0A, 0x0A]"

text \<open>The prompt template, with its line breaks and indentation.\<close>

definition build_prompt :: "jsstring \<Rightarrow> jsstring \<Rightarrow> jsstring" where
  "build_prompt context q =
     js ''You are helpful news assistant. Based on the following context, answer the user'' @ [0x27]
     @ js ''s question. Provide a concise answer and mention the source aritcle titles if possible.''
     @ [0x0A] @ js ''      Context:''
     @ [0x0A] @ js ''      '' @ context
     @ [0x0A] @ js ''      Question:''
     @ [0x0A] @ js ''      '' @ q
     @ [0x0A] @ js ''      ''
     @ [0x0A] @ js ''      Answer:''"

text \<open>\<open>await redisClient.rPush(key, value)\<close>.\<close>

definition rPush :: "'v backend \<Rightarrow> jsstring \<Rightarrow> stored \<Rightarrow> server \<Rightarrow> (err \<times> server) + server" where
  "rPush be key v s =
     (let s1 = s\<lparr>calls := calls s @ [RPush key v]\<rparr> in
      if redis_ok be (count_redis (calls s))
      then Inr (s1\<lparr>redis := (redis s1)(key := redis s1 key @ [v])\<rparr>)
      else Inl (RedisError, s1))"

text \<open>The \<open>try\<close> block of the chat route: \<open>Inl\<close> is what the \<open>catch\<close> receives.\<close>

definition chat_try ::
  "'v backend \<Rightarrow> jsstring \<Rightarrow> jsstring \<Rightarrow> server \<Rightarrow> (err \<times> server) + (jsstring \<times> server)" where
  "chat_try be q key s =
     (let s1 = s\<lparr>calls := calls s @ [EmbedQuery q]\<rparr> in
      case getJinaEmbeddings (embed_reply be q) of
        Inl e \<Rightarrow> Inl (e, s1)
      | Inr queryEmbedding \<Rightarrow>
          (let s2 = s1\<lparr>calls := calls s1 @ [Search]\<rparr> in
           case search_reply be queryEmbedding of
             Inl e \<Rightarrow> Inl (e, s2)
           | Inr searchResponse \<Rightarrow>
               (case payload_texts searchResponse of
                  None \<Rightarrow> Inl (TypeError, s2)
                | Some texts \<Rightarrow>
                    (let prompt = build_prompt (join separator texts) q;
                         s3 = s2\<lparr>calls := calls s2 @ [Generate prompt]\<rparr> in
                     case generate_reply be prompt of
                       Inl e \<Rightarrow> Inl (e, s3)
                     | Inr finalAnswer \<Rightarrow>
                         (let userMessage = \<lparr>sender = js ''user'', message_text = q\<rparr>;
                              botMessage = \<lparr>sender = js ''bot'', message_text = finalAnswer\<rparr> in
                          case rPush be key (JSON_stringify userMessage) s3 of
                            Inl f \<Rightarrow> Inl f
                          | Inr s4 \<Rightarrow>
                              (case rPush be key (JSON_stringify botMessage) s4 of
                                 Inl f \<Rightarrow> Inl f
                               | Inr s5 \<Rightarrow> Inr (finalAnswer, s5)))))))"

definition query_required :: jsstring where
  "query_required = js ''Query is required''"

definition processing_failed :: jsstring where
  "processing_failed = js ''An error occurred while processing your request.''"

text \<open>The identifier the route works with: the caller's, or a new one when \<open>!sessionId\<close>.\<close>

definition resolve_session :: "'v backend \<Rightarrow> request \<Rightarrow> jsstring" where
  "resolve_session be req =
     (case sessionId req of
        None \<Rightarrow> new_uuid be
      | Some sid \<Rightarrow> if sid = [] then new_uuid be else sid)"

text \<open>\<open>app.post("/api/chat", ...)\<close>: the response and the state after it.\<close>

definition post_chat :: "'v backend \<Rightarrow> request \<Rightarrow> server \<Rightarrow> response \<times> server" where
  "post_chat be req s =
     (case query req of
        None \<Rightarrow> (BadRequest query_required, s)
      | Some q \<Rightarrow>
          if q = [] then (BadRequest query_required, s)
          else (let sid = resolve_session be req in
                case chat_try be q (historyKey sid) s of
                  Inl (e, s') \<Rightarrow> (ServerError processing_failed, s')
                | Inr (finalAnswer, s') \<Rightarrow> (ChatReply finalAnswer sid, s')))"


text \<open>
  Example environments and requests. \<open>happy_backend\<close>: every stage succeeds.
  \<open>bot_push_failing_backend\<close>: the same, but the second Redis command fails.
\<close>

definition happy_backend :: "jsstring backend" where
  "happy_backend =
     \<lparr>new_uuid = js ''uuid-1'',
      embed_reply = (\<lambda>q. Http 200 (Some (Data [Item (Some (js ''vec''))]))),
      search_reply = (\<lambda>v. Inr [Some (js ''Snippet one.''), Some (js ''Snippet two.'')]),
      generate_reply = (\<lambda>p. Inr (js ''It rained.'')),
      redis_ok = (\<lambda>k. True)\<rparr>"

definition bot_push_failing_backend :: "jsstring backend" where
  "bot_push_failing_backend = happy_backend\<lparr>redis_ok := (\<lambda>k. k \<noteq> 1)\<rparr>"

definition fresh_server :: server where
  "fresh_server = \<lparr>redis = (\<lambda>key. []), calls = []\<rparr>"

definition today_request :: request where
  "today_request = \<lparr>query = Some (js ''What happened today?''), sessionId = None\<rparr>"



section \<open>Auxiliary predicates\<close>

text \<open>
  Used in the proofs about the chunker only: a chunk is within the bound or is one trimmed
  sentence of \<open>S\<close> longer than the bound; the buffer is empty, or ends with the appended
  space after a content that is within the bound or is one sentence of \<open>S\<close>.
\<close>

definition chunk_ok :: "int \<Rightarrow> jsstring set \<Rightarrow> jsstring \<Rightarrow> bool" where
  "chunk_ok n S c \<longleftrightarrow> int (length c) \<le> n \<or> (\<exists>s\<in>S. n < int (length s) \<and> c = trim s)"

definition buffer_ok :: "int \<Rightarrow> jsstring set \<Rightarrow> jsstring \<Rightarrow> bool" where
  "buffer_ok n S cur \<longleftrightarrow>
     cur = [] \<or> (\<exists>b. cur = b @ [space] \<and> (int (length b) \<le> n \<or> b \<in> S))"

section \<open>Properties of the chunker\<close>

lemma isWhiteSpace_space: "isWhiteSpace space"
  by (simp add: isWhiteSpace_def space_def)

lemma trim_space: "trim [space] = []"
  by (simp add: trim_def isWhiteSpace_space)

lemma length_trim_le: "length (trim s) \<le> length s"
proof -
  have "length (trim s) = length (dropWhile isWhiteSpace (rev (dropWhile isWhiteSpace s)))"
    by (simp add: trim_def)
  also have "\<dots> \<le> length (rev (dropWhile isWhiteSpace s))"
    by (rule length_dropWhile_le)
  also have "\<dots> = length (dropWhile isWhiteSpace s)"
    by simp
  also have "\<dots> \<le> length s"
    by (rule length_dropWhile_le)
  finally show ?thesis .
qed

lemma trim_snoc_space: "trim (s @ [space]) = trim s"
proof (cases "\<forall>c\<in>set s. isWhiteSpace c")
  case True
  then have a: "dropWhile isWhiteSpace s = []"
    by simp
  from True have b: "dropWhile isWhiteSpace (s @ [space]) = []"
    by (simp add: isWhiteSpace_space)
  show ?thesis
    unfolding trim_def a b by simp
next
  case False
  then have "dropWhile isWhiteSpace (s @ [space]) = dropWhile isWhiteSpace s @ [space]"
    by (auto simp: dropWhile_append1)
  then show ?thesis
    by (simp add: trim_def isWhiteSpace_space)
qed

lemma buffer_ok_flush:
  assumes "buffer_ok n S cur" and "cur \<noteq> []"
  shows "chunk_ok n S (trim cur)"
proof -
  from assms obtain b where b: "cur = b @ [space]" "int (length b) \<le> n \<or> b \<in> S"
    by (auto simp: buffer_ok_def)
  show ?thesis
  proof (cases "int (length b) \<le> n")
    case True
    moreover have "length (trim b) \<le> length b" by (rule length_trim_le)
    ultimately show ?thesis by (simp add: chunk_ok_def b trim_snoc_space)
  next
    case False
    with b have "b \<in> S" and "n < int (length b)" by auto
    then have "\<exists>s\<in>S. n < int (length s) \<and> trim b = trim s" by blast
    then show ?thesis by (simp add: chunk_ok_def b trim_snoc_space)
  qed
qed

lemma chunk_step_inv:
  assumes "\<forall>c\<in>set (fst st). chunk_ok n S c" and "buffer_ok n S (snd st)" and "s \<in> S"
  shows "(\<forall>c\<in>set (fst (chunk_step n st s)). chunk_ok n S c) \<and> buffer_ok n S (snd (chunk_step n st s))"
proof (cases st)
  case (Pair chunks cur)
  show ?thesis
  proof (cases "n < int (length (cur @ s))")
    case True
    have "buffer_ok n S (s @ [space])"
      using assms(3) by (simp add: buffer_ok_def)
    moreover have "cur \<noteq> [] \<Longrightarrow> chunk_ok n S (trim cur)"
      using assms(2) Pair by (simp add: buffer_ok_flush)
    ultimately show ?thesis
      using assms(1) True Pair by (simp add: chunk_step_def)
  next
    case False
    then have "int (length (cur @ s)) \<le> n"
      by simp
    then have "\<exists>b. (cur @ s) @ [space] = b @ [space] \<and> (int (length b) \<le> n \<or> b \<in> S)"
      by (intro exI [of _ "cur @ s"]) simp
    then have "buffer_ok n S ((cur @ s) @ [space])"
      unfolding buffer_ok_def by (rule disjI2)
    then show ?thesis
      using assms(1) False Pair by (simp add: chunk_step_def)
  qed
qed

lemma foldl_chunk_step_inv:
  "\<forall>c\<in>set (fst st). chunk_ok n S c \<Longrightarrow> buffer_ok n S (snd st) \<Longrightarrow> set ss \<subseteq> S \<Longrightarrow>
   (\<forall>c\<in>set (fst (foldl (chunk_step n) st ss)). chunk_ok n S c)
   \<and> buffer_ok n S (snd (foldl (chunk_step n) st ss))"
proof (induction ss arbitrary: st)
  case Nil
  then show ?case by simp
next
  case (Cons s ss)
  from Cons.prems have "s \<in> S" by simp
  from chunk_step_inv [OF Cons.prems(1) Cons.prems(2) this]
  have "\<forall>c\<in>set (fst (chunk_step n st s)). chunk_ok n S c"
    and "buffer_ok n S (snd (chunk_step n st s))" by simp_all
  moreover from Cons.prems have "set ss \<subseteq> S" by simp
  ultimately show ?case
    using Cons.IH [of "chunk_step n st s"] by simp
qed

text \<open>
  Claim C1: for every text and every bound, each chunk returned by the chunker is at most
  as long as the bound, or it is a single sentence of the text, trimmed, whose own length
  exceeds the bound (such a sentence is emitted alone and is not split further).
\<close>

theorem chunk_length_bound:
  "\<forall>c\<in>set (chunkText text chunkSize).
     int (length c) \<le> chunkSize
     \<or> (\<exists>s\<in>set (split_sentences text). chunkSize < int (length s) \<and> c = trim s)"
proof -
  let ?S = "set (split_sentences text)"
  let ?st = "foldl (chunk_step chunkSize) ([], []) (split_sentences text)"
  have inv: "(\<forall>c\<in>set (fst ?st). chunk_ok chunkSize ?S c) \<and> buffer_ok chunkSize ?S (snd ?st)"
    by (rule foldl_chunk_step_inv) (simp_all add: buffer_ok_def)
  obtain chunks cur where st: "?st = (chunks, cur)"
    by (cases ?st)
  from inv st have chunks: "\<forall>c\<in>set chunks. chunk_ok chunkSize ?S c"
    and cur: "buffer_ok chunkSize ?S cur" by simp_all
  have "\<forall>c\<in>set (chunkText text chunkSize). chunk_ok chunkSize ?S c"
  proof (cases "cur = []")
    case True
    with chunks st show ?thesis by (simp add: chunkText_def)
  next
    case False
    with cur have "chunk_ok chunkSize ?S (trim cur)"
      by (simp add: buffer_ok_flush)
    with chunks st False show ?thesis by (simp add: chunkText_def)
  qed
  then show ?thesis by (simp add: chunk_ok_def)
qed

theorem chunk_length_bound_witness:
  "chunkText (js ''Hi. Hello there. Yo.'') 7 = [js ''Hi.'', js ''Hello there.'', js ''Yo.'']
   \<and> (\<exists>s\<in>set (split_sentences (js ''Hi. Hello there. Yo.'')).
         7 < int (length s) \<and> js ''Hello there.'' = trim s)"
proof (rule conjI)
  show eq: "chunkText (js ''Hi. Hello there. Yo.'') 7
            = [js ''Hi.'', js ''Hello there.'', js ''Yo.'']"
    by code_simp
  have "js ''Hello there.'' \<in> set (chunkText (js ''Hi. Hello there. Yo.'') 7)"
    unfolding eq by simp
  with chunk_length_bound [of "js ''Hi. Hello there. Yo.''" 7]
  have "int (length (js ''Hello there.'')) \<le> 7
        \<or> (\<exists>s\<in>set (split_sentences (js ''Hi. Hello there. Yo.'')).
              7 < int (length s) \<and> js ''Hello there.'' = trim s)"
    by (rule bspec)
  moreover have "\<not> int (length (js ''Hello there.'')) \<le> 7"
    by (simp add: js_def)
  ultimately show "\<exists>s\<in>set (split_sentences (js ''Hi. Hello there. Yo.'')).
                     7 < int (length s) \<and> js ''Hello there.'' = trim s"
    by blast
qed

text \<open>
  Claim C2 says that the chunker returns no chunk at all for the empty string. The code
  returns one chunk, the empty string, for every bound: \<open>split\<close> gives the array holding
  the empty string, the loop turns the buffer into \<open>" "\<close>, which is truthy, and the
  final flush pushes its trimmed value.
\<close>

theorem chunkText_empty_input: "chunkText [] chunkSize = [[]]"
  by (simp add: chunkText_def chunk_step_def trim_space)

lemma buffer_Nil_iff: "concat (map (\<lambda>s. s @ [space]) g) = [] \<longleftrightarrow> g = []"
  by (cases g) simp_all

lemma chunk_step_groups:
  assumes "fst st = map (\<lambda>g. trim (concat (map (\<lambda>s. s @ [space]) g))) gs"
    and "[] \<notin> set gs"
    and "snd st = concat (map (\<lambda>s. s @ [space]) g)"
  shows "\<exists>gs' g'. fst (chunk_step n st s) = map (\<lambda>g. trim (concat (map (\<lambda>s. s @ [space]) g))) gs'
           \<and> [] \<notin> set gs'
           \<and> snd (chunk_step n st s) = concat (map (\<lambda>s. s @ [space]) g')
           \<and> concat gs' @ g' = concat gs @ g @ [s]"
proof (cases st)
  case (Pair chunks cur)
  with assms have chunks: "chunks = map (\<lambda>g. trim (concat (map (\<lambda>s. s @ [space]) g))) gs"
    and cur: "cur = concat (map (\<lambda>s. s @ [space]) g)" by simp_all
  show ?thesis
  proof (cases "n < int (length (cur @ s))")
    case flush: True
    show ?thesis
    proof (cases "cur = []")
      case True
      with cur have "g = []" by (simp add: buffer_Nil_iff)
      with True flush Pair chunks assms(2) show ?thesis
        by (intro exI [of _ gs] exI [of _ "[s]"]) (simp add: chunk_step_def)
    next
      case False
      with cur have "g \<noteq> []" by (auto simp: buffer_Nil_iff)
      with False flush Pair chunks cur assms(2) show ?thesis
        by (intro exI [of _ "gs @ [g]"] exI [of _ "[s]"]) (simp add: chunk_step_def)
    qed
  next
    case False
    with Pair chunks cur assms(2) show ?thesis
      by (intro exI [of _ gs] exI [of _ "g @ [s]"]) (simp add: chunk_step_def)
  qed
qed

lemma foldl_chunk_step_groups:
  "fst st = map (\<lambda>g. trim (concat (map (\<lambda>s. s @ [space]) g))) gs \<Longrightarrow>
   [] \<notin> set gs \<Longrightarrow>
   snd st = concat (map (\<lambda>s. s @ [space]) g) \<Longrightarrow>
   \<exists>gs' g'. fst (foldl (chunk_step n) st ss) = map (\<lambda>g. trim (concat (map (\<lambda>s. s @ [space]) g))) gs'
           \<and> [] \<notin> set gs'
           \<and> snd (foldl (chunk_step n) st ss) = concat (map (\<lambda>s. s @ [space]) g')
           \<and> concat gs' @ g' = concat gs @ g @ ss"
proof (induction ss arbitrary: st gs g)
  case Nil
  then show ?case by auto
next
  case (Cons s ss)
  from chunk_step_groups [OF Cons.prems, of n s]
  obtain gs1 g1 where
    1: "fst (chunk_step n st s) = map (\<lambda>g. trim (concat (map (\<lambda>s. s @ [space]) g))) gs1"
    and 2: "[] \<notin> set gs1"
    and 3: "snd (chunk_step n st s) = concat (map (\<lambda>s. s @ [space]) g1)"
    and 4: "concat gs1 @ g1 = concat gs @ g @ [s]"
    by blast
  from 4 have "(concat gs1 @ g1) @ ss = (concat gs @ g @ [s]) @ ss"
    by (rule arg_cong)
  then have 5: "concat gs1 @ g1 @ ss = concat gs @ g @ s # ss"
    by simp
  from Cons.IH [OF 1 2 3] show ?case
    unfolding 5 by simp
qed

lemma chunkText_groups:
  "\<exists>groups. concat groups = split_sentences text \<and> [] \<notin> set groups
     \<and> chunkText text chunkSize
         = map (\<lambda>g. trim (concat (map (\<lambda>s. s @ [space]) g))) groups"
proof -
  let ?st = "foldl (chunk_step chunkSize) ([], []) (split_sentences text)"
  have "\<exists>gs' g'. fst ?st = map (\<lambda>g. trim (concat (map (\<lambda>s. s @ [space]) g))) gs'
           \<and> [] \<notin> set gs'
           \<and> snd ?st = concat (map (\<lambda>s. s @ [space]) g')
           \<and> concat gs' @ g' = concat [] @ [] @ split_sentences text"
    by (rule foldl_chunk_step_groups) simp_all
  then obtain gs g where
    1: "fst ?st = map (\<lambda>g. trim (concat (map (\<lambda>s. s @ [space]) g))) gs"
    and 2: "[] \<notin> set gs"
    and 3: "snd ?st = concat (map (\<lambda>s. s @ [space]) g)"
    and 4: "concat gs @ g = split_sentences text"
    by auto
  obtain chunks cur where st: "?st = (chunks, cur)"
    by (cases ?st)
  show ?thesis
  proof (cases "cur = []")
    case True
    with 3 st have "g = []" by (simp add: buffer_Nil_iff)
    with True 1 2 4 st show ?thesis
      by (intro exI [of _ gs]) (simp add: chunkText_def)
  next
    case False
    with 3 st have "g \<noteq> []" by (auto simp: buffer_Nil_iff)
    with False 1 2 3 4 st show ?thesis
      by (intro exI [of _ "gs @ [g]"]) (simp add: chunkText_def)
  qed
qed

lemma filter_dropWhile_neg: "filter (\<lambda>c. \<not> P c) (dropWhile P xs) = filter (\<lambda>c. \<not> P c) xs"
  by (induction xs) simp_all

lemma filter_trim: "filter (\<lambda>c. \<not> isWhiteSpace c) (trim s) = filter (\<lambda>c. \<not> isWhiteSpace c) s"
proof -
  have "filter (\<lambda>c. \<not> isWhiteSpace c) (trim s)
      = rev (filter (\<lambda>c. \<not> isWhiteSpace c) (dropWhile isWhiteSpace (rev (dropWhile isWhiteSpace s))))"
    by (simp add: trim_def rev_filter)
  also have "\<dots> = rev (filter (\<lambda>c. \<not> isWhiteSpace c) (rev (dropWhile isWhiteSpace s)))"
    by (simp only: filter_dropWhile_neg)
  also have "\<dots> = filter (\<lambda>c. \<not> isWhiteSpace c) (dropWhile isWhiteSpace s)"
    by (simp add: rev_filter)
  also have "\<dots> = filter (\<lambda>c. \<not> isWhiteSpace c) s"
    by (rule filter_dropWhile_neg)
  finally show ?thesis .
qed

lemma filter_buffer:
  "filter (\<lambda>c. \<not> isWhiteSpace c) (concat (map (\<lambda>s. s @ [space]) g))
   = filter (\<lambda>c. \<not> isWhiteSpace c) (concat g)"
  by (induction g) (simp_all add: isWhiteSpace_space)

lemma filter_split_sentences:
  "filter (\<lambda>c. \<not> isWhiteSpace c) (concat (split_sentences text))
   = filter (\<lambda>c. \<not> isWhiteSpace c) text"
proof (induction "text" rule: split_sentences.induct)
  case 1
  show ?case by simp
next
  case (2 c rest)
  show ?case
  proof (cases "isSentenceEnd c \<and> rest \<noteq> [] \<and> isWhiteSpace (hd rest)")
    case True
    with 2 show ?thesis by (simp add: filter_dropWhile_neg)
  next
    case False
    with 2 show ?thesis by (auto split: list.splits)
  qed
qed

lemma filter_chunks:
  "filter (\<lambda>c. \<not> isWhiteSpace c)
     (concat (map (\<lambda>g. trim (concat (map (\<lambda>s. s @ [space]) g))) groups))
   = filter (\<lambda>c. \<not> isWhiteSpace c) (concat (concat groups))"
  by (induction groups) (simp_all add: filter_trim filter_buffer)

text \<open>
  Claim C3: the sentences of the text, in their order, are cut into consecutive non-empty
  groups, and the chunks are exactly these groups, each written with a space after every
  sentence and trimmed: every sentence is in exactly one chunk, in input order, and no
  chunk overlaps another. Leaving white space aside, the chunks concatenated are the text.
\<close>

theorem chunks_partition_sentences:
  "(\<exists>groups. concat groups = split_sentences text \<and> [] \<notin> set groups
     \<and> chunkText text chunkSize
         = map (\<lambda>g. trim (concat (map (\<lambda>s. s @ [space]) g))) groups)
   \<and> filter (\<lambda>c. \<not> isWhiteSpace c) (concat (chunkText text chunkSize))
      = filter (\<lambda>c. \<not> isWhiteSpace c) text"
proof -
  from chunkText_groups [of "text" chunkSize] obtain groups where
    g: "concat groups = split_sentences text" "[] \<notin> set groups"
       "chunkText text chunkSize
         = map (\<lambda>g. trim (concat (map (\<lambda>s. s @ [space]) g))) groups"
    by blast
  have "filter (\<lambda>c. \<not> isWhiteSpace c) (concat (chunkText text chunkSize))
      = filter (\<lambda>c. \<not> isWhiteSpace c) (concat (split_sentences text))"
    by (simp only: g(3) filter_chunks g(1))
  also have "\<dots> = filter (\<lambda>c. \<not> isWhiteSpace c) text"
    by (rule filter_split_sentences)
  finally show ?thesis
    using g by blast
qed

section \<open>Properties of the ingestion script\<close>

lemma push_embeddings_Items: "push_embeddings (map Item es) vs = (None, vs @ es)"
  by (induction es arbitrary: vs) simp_all

lemma try_embed_rejected:
  "requestJinaEmbeddings (jina sv (count_requests (trace r)) batch) = Inl e \<Longrightarrow>
   try_embed sv batch r = (Some e, r\<lparr>trace := trace r @ [JinaRequest batch]\<rparr>)"
  by (simp add: try_embed_def)

lemma try_embed_resolved:
  "requestJinaEmbeddings (jina sv (count_requests (trace r)) batch) = Inr (Data (map Item es)) \<Longrightarrow>
   try_embed sv batch r
     = (None, r\<lparr>allVectors := allVectors r @ es,
                trace := trace r @ [JinaRequest batch, Sleep 200]\<rparr>)"
  by (simp add: try_embed_def push_embeddings_Items)

lemma embed_retry_resolved:
  "requestJinaEmbeddings (jina sv (count_requests (trace r)) batch) = Inr (Data (map Item es)) \<Longrightarrow>
   embed_retry sv batch attempt r
     = Inr (r\<lparr>allVectors := allVectors r @ es,
               trace := trace r @ [JinaRequest batch, Sleep 200]\<rparr>)"
  by (subst embed_retry.simps) (simp add: try_embed_resolved)

lemma embed_retry_rejected:
  "requestJinaEmbeddings (jina sv (count_requests (trace r)) batch) = Inl e \<Longrightarrow>
   embed_retry sv batch attempt r
     = (if attempt + 1 \<ge> 3 then Inl (e, r\<lparr>trace := trace r @ [JinaRequest batch]\<rparr>)
        else embed_retry sv batch (attempt + 1)
               (r\<lparr>trace := trace r @ [JinaRequest batch, Sleep (500 * (attempt + 1))]\<rparr>))"
  by (subst embed_retry.simps) (simp add: try_embed_rejected)

lemma embed_third_attempt_succeeds:
  assumes "requestJinaEmbeddings (jina sv (count_requests (trace r)) batch) = Inl e1"
    and "requestJinaEmbeddings (jina sv (count_requests (trace r) + 1) batch) = Inl e2"
    and "requestJinaEmbeddings (jina sv (count_requests (trace r) + 2) batch) = Inr (Data (map Item es))"
  shows "embed_retry sv batch 0 r
     = Inr (r\<lparr>allVectors := allVectors r @ es,
               trace := trace r @ [JinaRequest batch, Sleep 500, JinaRequest batch, Sleep 1000,
                                   JinaRequest batch, Sleep 200]\<rparr>)"
proof -
  let ?r1 = "r\<lparr>trace := trace r @ [JinaRequest batch, Sleep (500 * (0 + 1))]\<rparr>"
  let ?r2 = "?r1\<lparr>trace := trace ?r1 @ [JinaRequest batch, Sleep (500 * (1 + 1))]\<rparr>"
  have 1: "embed_retry sv batch 0 r = embed_retry sv batch (0 + 1) ?r1"
    using assms(1) by (subst embed_retry_rejected) simp_all
  have "requestJinaEmbeddings (jina sv (count_requests (trace ?r1)) batch) = Inl e2"
    using assms(2) by (simp add: count_requests_def)
  then have 2: "embed_retry sv batch (0 + 1) ?r1 = embed_retry sv batch (1 + 1) ?r2"
    by (subst embed_retry_rejected) simp_all
  have "requestJinaEmbeddings (jina sv (count_requests (trace ?r2)) batch) = Inr (Data (map Item es))"
    using assms(3) by (simp add: count_requests_def)
  then have 3: "embed_retry sv batch (1 + 1) ?r2
      = Inr (?r2\<lparr>allVectors := allVectors ?r2 @ es,
                  trace := trace ?r2 @ [JinaRequest batch, Sleep 200]\<rparr>)"
    by (rule embed_retry_resolved)
  show ?thesis
    unfolding 1 2 3 by simp
qed

lemma embed_three_attempts_fail:
  assumes "requestJinaEmbeddings (jina sv (count_requests (trace r)) batch) = Inl e1"
    and "requestJinaEmbeddings (jina sv (count_requests (trace r) + 1) batch) = Inl e2"
    and "requestJinaEmbeddings (jina sv (count_requests (trace r) + 2) batch) = Inl e3"
  shows "embed_retry sv batch 0 r
     = Inl (e3, r\<lparr>trace := trace r @ [JinaRequest batch, Sleep 500, JinaRequest batch,
                                        Sleep 1000, JinaRequest batch]\<rparr>)"
proof -
  let ?r1 = "r\<lparr>trace := trace r @ [JinaRequest batch, Sleep (500 * (0 + 1))]\<rparr>"
  let ?r2 = "?r1\<lparr>trace := trace ?r1 @ [JinaRequest batch, Sleep (500 * (1 + 1))]\<rparr>"
  have 1: "embed_retry sv batch 0 r = embed_retry sv batch (0 + 1) ?r1"
    using assms(1) by (subst embed_retry_rejected) simp_all
  have "requestJinaEmbeddings (jina sv (count_requests (trace ?r1)) batch) = Inl e2"
    using assms(2) by (simp add: count_requests_def)
  then have 2: "embed_retry sv batch (0 + 1) ?r1 = embed_retry sv batch (1 + 1) ?r2"
    by (subst embed_retry_rejected) simp_all
  have "requestJinaEmbeddings (jina sv (count_requests (trace ?r2)) batch) = Inl e3"
    using assms(3) by (simp add: count_requests_def)
  then have 3: "embed_retry sv batch (1 + 1) ?r2
      = Inl (e3, ?r2\<lparr>trace := trace ?r2 @ [JinaRequest batch]\<rparr>)"
    by (subst embed_retry_rejected) simp_all
  show ?thesis
    unfolding 1 2 3 by simp
qed

lemma upsert_retry_ok:
  "qdrant_upsert sv (count_upserts (trace r)) ps = None \<Longrightarrow>
   upsert_retry sv ps attempt r = Inr (r\<lparr>trace := trace r @ [Upsert ps]\<rparr>)"
  by (subst upsert_retry.simps) simp

lemma upsert_retry_rejected:
  "qdrant_upsert sv (count_upserts (trace r)) ps = Some e \<Longrightarrow>
   upsert_retry sv ps attempt r
     = (if attempt + 1 \<ge> 3 then Inl (e, r\<lparr>trace := trace r @ [Upsert ps]\<rparr>)
        else upsert_retry sv ps (attempt + 1)
               (r\<lparr>trace := trace r @ [Upsert ps, Sleep (500 * (attempt + 1))]\<rparr>))"
  by (subst upsert_retry.simps) simp

lemma upsert_third_attempt_succeeds:
  assumes "qdrant_upsert sv (count_upserts (trace r)) ps = Some u1"
    and "qdrant_upsert sv (count_upserts (trace r) + 1) ps = Some u2"
    and "qdrant_upsert sv (count_upserts (trace r) + 2) ps = None"
  shows "upsert_retry sv ps 0 r
     = Inr (r\<lparr>trace := trace r @ [Upsert ps, Sleep 500, Upsert ps, Sleep 1000, Upsert ps]\<rparr>)"
proof -
  let ?r1 = "r\<lparr>trace := trace r @ [Upsert ps, Sleep (500 * (0 + 1))]\<rparr>"
  let ?r2 = "?r1\<lparr>trace := trace ?r1 @ [Upsert ps, Sleep (500 * (1 + 1))]\<rparr>"
  have 1: "upsert_retry sv ps 0 r = upsert_retry sv ps (0 + 1) ?r1"
    using assms(1) by (subst upsert_retry_rejected) simp_all
  have "qdrant_upsert sv (count_upserts (trace ?r1)) ps = Some u2"
    using assms(2) by (simp add: count_upserts_def)
  then have 2: "upsert_retry sv ps (0 + 1) ?r1 = upsert_retry sv ps (1 + 1) ?r2"
    by (subst upsert_retry_rejected) simp_all
  have "qdrant_upsert sv (count_upserts (trace ?r2)) ps = None"
    using assms(3) by (simp add: count_upserts_def)
  then have 3: "upsert_retry sv ps (1 + 1) ?r2 = Inr (?r2\<lparr>trace := trace ?r2 @ [Upsert ps]\<rparr>)"
    by (rule upsert_retry_ok)
  show ?thesis
    unfolding 1 2 3 by simp
qed

lemma upsert_three_attempts_fail:
  assumes "qdrant_upsert sv (count_upserts (trace r)) ps = Some u1"
    and "qdrant_upsert sv (count_upserts (trace r) + 1) ps = Some u2"
    and "qdrant_upsert sv (count_upserts (trace r) + 2) ps = Some u3"
  shows "upsert_retry sv ps 0 r
     = Inl (u3, r\<lparr>trace := trace r @ [Upsert ps, Sleep 500, Upsert ps, Sleep 1000, Upsert ps]\<rparr>)"
proof -
  let ?r1 = "r\<lparr>trace := trace r @ [Upsert ps, Sleep (500 * (0 + 1))]\<rparr>"
  let ?r2 = "?r1\<lparr>trace := trace ?r1 @ [Upsert ps, Sleep (500 * (1 + 1))]\<rparr>"
  have 1: "upsert_retry sv ps 0 r = upsert_retry sv ps (0 + 1) ?r1"
    using assms(1) by (subst upsert_retry_rejected) simp_all
  have "qdrant_upsert sv (count_upserts (trace ?r1)) ps = Some u2"
    using assms(2) by (simp add: count_upserts_def)
  then have 2: "upsert_retry sv ps (0 + 1) ?r1 = upsert_retry sv ps (1 + 1) ?r2"
    by (subst upsert_retry_rejected) simp_all
  have "qdrant_upsert sv (count_upserts (trace ?r2)) ps = Some u3"
    using assms(3) by (simp add: count_upserts_def)
  then have 3: "upsert_retry sv ps (1 + 1) ?r2 = Inl (u3, ?r2\<lparr>trace := trace ?r2 @ [Upsert ps]\<rparr>)"
    by (subst upsert_retry_rejected) simp_all
  show ?thesis
    unfolding 1 2 3 by simp
qed

text \<open>
  Claim C4: in both retry loops (the embedding request of a batch and the upsert of a
  batch), entered with \<open>attempt = 0\<close>: when the operation fails on the first two
  attempts and succeeds on the third, the loop returns the successful result, and between
  the three attempts it has slept exactly twice, 500 ms and then 1000 ms (the embedding
  loop then sleeps its 200 ms pacing delay after the success); when the operation fails on
  all three attempts, the loop throws the third error after exactly three attempts and
  two sleeps.
\<close>

theorem retry_policy:
  "(requestJinaEmbeddings (jina sv (count_requests (trace r)) batch) = Inl e1
      \<and> requestJinaEmbeddings (jina sv (count_requests (trace r) + 1) batch) = Inl e2
      \<and> requestJinaEmbeddings (jina sv (count_requests (trace r) + 2) batch) = Inr (Data (map Item es))
    \<longrightarrow> embed_retry sv batch 0 r
          = Inr (r\<lparr>allVectors := allVectors r @ es,
                    trace := trace r @ [JinaRequest batch, Sleep 500, JinaRequest batch,
                                        Sleep 1000, JinaRequest batch, Sleep 200]\<rparr>))
   \<and> (requestJinaEmbeddings (jina sv (count_requests (trace r)) batch) = Inl e1
      \<and> requestJinaEmbeddings (jina sv (count_requests (trace r) + 1) batch) = Inl e2
      \<and> requestJinaEmbeddings (jina sv (count_requests (trace r) + 2) batch) = Inl e3
    \<longrightarrow> embed_retry sv batch 0 r
          = Inl (e3, r\<lparr>trace := trace r @ [JinaRequest batch, Sleep 500, JinaRequest batch,
                                            Sleep 1000, JinaRequest batch]\<rparr>))
   \<and> (qdrant_upsert sv (count_upserts (trace r)) ps = Some u1
      \<and> qdrant_upsert sv (count_upserts (trace r) + 1) ps = Some u2
      \<and> qdrant_upsert sv (count_upserts (trace r) + 2) ps = None
    \<longrightarrow> upsert_retry sv ps 0 r
          = Inr (r\<lparr>trace := trace r @ [Upsert ps, Sleep 500, Upsert ps, Sleep 1000, Upsert ps]\<rparr>))
   \<and> (qdrant_upsert sv (count_upserts (trace r)) ps = Some u1
      \<and> qdrant_upsert sv (count_upserts (trace r) + 1) ps = Some u2
      \<and> qdrant_upsert sv (count_upserts (trace r) + 2) ps = Some u3
    \<longrightarrow> upsert_retry sv ps 0 r
          = Inl (u3, r\<lparr>trace := trace r @ [Upsert ps, Sleep 500, Upsert ps, Sleep 1000,
                                            Upsert ps]\<rparr>))"
  using embed_third_attempt_succeeds [of sv r batch e1 e2 es]
    embed_three_attempts_fail [of sv r batch e1 e2 e3]
    upsert_third_attempt_succeeds [of sv r ps u1 u2]
    upsert_three_attempts_fail [of sv r ps u1 u2 u3]
  by blast

theorem retry_policy_witness:
  "embed_retry flaky_services [js ''a''] 0 \<lparr>allVectors = [], trace = []\<rparr>
     = Inr \<lparr>allVectors = [Some (js ''a'')],
            trace = [JinaRequest [js ''a''], Sleep 500, JinaRequest [js ''a''], Sleep 1000,
                     JinaRequest [js ''a''], Sleep 200]\<rparr>
   \<and> upsert_retry flaky_services [] 0 \<lparr>allVectors = [], trace = []\<rparr>
     = Inr \<lparr>allVectors = [],
            trace = [Upsert [], Sleep 500, Upsert [], Sleep 1000, Upsert []]\<rparr>
   \<and> embed_retry down_services [js ''a''] 0 \<lparr>allVectors = [], trace = []\<rparr>
     = Inl (HttpError 503,
            \<lparr>allVectors = [],
             trace = [JinaRequest [js ''a''], Sleep 500, JinaRequest [js ''a''], Sleep 1000,
                      JinaRequest [js ''a'']]\<rparr>)
   \<and> upsert_retry down_services [] 0 \<lparr>allVectors = [], trace = []\<rparr>
     = Inl (QdrantError,
            \<lparr>allVectors = [],
             trace = [Upsert [], Sleep 500, Upsert [], Sleep 1000, Upsert []]\<rparr>)"
  using retry_policy [of flaky_services "\<lparr>allVectors = [], trace = []\<rparr>" "[js ''a'']"
      TransportError TransportError "[Some (js ''a'')]" TransportError "[]"
      QdrantError QdrantError QdrantError]
    retry_policy [of down_services "\<lparr>allVectors = [], trace = []\<rparr>" "[js ''a'']"
      "HttpError 503" "HttpError 503" "[]" "HttpError 503" "[]"
      QdrantError QdrantError QdrantError]
  by (simp add: flaky_services_def down_services_def echo_reply_def isOk_def
      count_requests_def count_upserts_def)

lemma slice_take_drop: "slice xs start (start + n) = take n (drop start xs)"
  by (simp add: slice_def)

lemma batch_count_step:
  assumes "start < n"
  shows "(n - start + 7) div 8 = Suc ((n - (start + 8) + 7) div (8::nat))"
proof (cases "start + 8 \<le> n")
  case True
  then have "n - start + 7 = (n - (start + 8) + 7) + 8"
    by simp
  then have "(n - start + 7) div 8 = ((n - (start + 8) + 7) + 8) div 8"
    by (rule arg_cong)
  also have "\<dots> = Suc ((n - (start + 8) + 7) div 8)"
    by (simp only: div_add_self2)
  finally show ?thesis .
next
  case False
  with assms have "8 * 1 \<le> n - start + 7" and "n - start + 7 < 8 * Suc 1"
    by simp_all
  then have "(n - start + 7) div 8 = 1"
    by (rule div_nat_eqI)
  moreover from False have "n - (start + 8) = 0"
    by simp
  ultimately show ?thesis
    by simp
qed

lemma embed_batches_reliable:
  assumes ok: "\<And>k b. requestJinaEmbeddings (jina sv k b) = Inr (Data (map (\<lambda>t. Item (Some (E t))) b))"
  shows "\<exists>r'. embed_batches sv chunks start r = Inr r'
           \<and> allVectors r' = allVectors r @ map (\<lambda>c. Some (E c)) (drop start chunks)
           \<and> count_requests (trace r')
               = count_requests (trace r) + (length chunks - start + 7) div 8"
  using ok
proof (induction sv chunks start r rule: embed_batches.induct)
  case (1 sv chunks start r)
  note ok = "1.prems"
  show ?case
  proof (cases "start < length chunks")
    case False
    then show ?thesis
      by (subst embed_batches.simps) simp
  next
    case True
    let ?batch = "slice chunks start (start + batchSize)"
    let ?f = "\<lambda>c. Some (E c)"
    let ?r1 = "r\<lparr>allVectors := allVectors r @ map ?f ?batch,
                  trace := trace r @ [JinaRequest ?batch, Sleep 200]\<rparr>"
    have "map (\<lambda>t. Item (Some (E t))) ?batch = map Item (map ?f ?batch)"
      by (simp add: comp_def)
    then have "requestJinaEmbeddings (jina sv (count_requests (trace r)) ?batch)
          = Inr (Data (map Item (map ?f ?batch)))"
      by (simp only: ok)
    then have step: "embed_retry sv ?batch 0 r = Inr ?r1"
      by (rule embed_retry_resolved)
    from "1.IH" [OF True step ok] obtain r' where
      r': "embed_batches sv chunks (start + batchSize) ?r1 = Inr r'"
      "allVectors r' = allVectors ?r1 @ map ?f (drop (start + batchSize) chunks)"
      "count_requests (trace r')
         = count_requests (trace ?r1) + (length chunks - (start + batchSize) + 7) div 8"
      by blast
    have run: "embed_batches sv chunks start r = Inr r'"
      by (subst embed_batches.simps) (simp only: True step r'(1) if_True sum.case)
    have batch: "?batch = take batchSize (drop start chunks)"
      by (rule slice_take_drop)
    have rest: "drop (start + batchSize) chunks = drop batchSize (drop start chunks)"
      by (simp add: add.commute)
    have "allVectors r' = allVectors r @ map ?f (take batchSize (drop start chunks)
                                                  @ drop batchSize (drop start chunks))"
      unfolding r'(2) batch rest by simp
    then have vs: "allVectors r' = allVectors r @ map ?f (drop start chunks)"
      by (simp only: append_take_drop_id)
    have "count_requests (trace ?r1) = Suc (count_requests (trace r))"
      by (simp add: count_requests_def)
    moreover have "(length chunks - start + 7) div 8
        = Suc ((length chunks - (start + batchSize) + 7) div 8)"
      unfolding batchSize_def using True by (rule batch_count_step)
    ultimately have n: "count_requests (trace r')
        = count_requests (trace r) + (length chunks - start + 7) div 8"
      using r'(3) by linarith
    from run vs n show ?thesis
      by blast
  qed
qed

lemma make_points_pairs:
  "map (\<lambda>p. (vector p, payload_text p)) (make_points sv a chunks (map f chunks))
   = map (\<lambda>c. (f c, Some c)) chunks"
proof (rule nth_equalityI)
  show "length (map (\<lambda>p. (vector p, payload_text p)) (make_points sv a chunks (map f chunks)))
        = length (map (\<lambda>c. (f c, Some c)) chunks)"
    by (simp add: make_points_def)
next
  fix i
  assume "i < length (map (\<lambda>p. (vector p, payload_text p)) (make_points sv a chunks (map f chunks)))"
  then have i: "i < length chunks"
    by (simp add: make_points_def)
  then have "make_points sv a chunks (map f chunks) ! i
      = \<lparr>point_id = v4 sv i, vector = f (chunks ! i), payload_text = Some (chunks ! i),
         payload_article_title = title a, payload_article_url = url a\<rparr>"
    by (simp add: make_points_def nth_enumerate_eq)
  with i show "map (\<lambda>p. (vector p, payload_text p)) (make_points sv a chunks (map f chunks)) ! i
        = map (\<lambda>c. (f c, Some c)) chunks ! i"
    by (simp add: make_points_def)
qed

text \<open>
  Claim C9, amended: when every embedding request is answered, at its first attempt, with
  one embedding per submitted text in the order of the texts, the embedding loop over \<open>N\<close>
  chunks returns after exactly \<open>ceil(N/8)\<close> requests, \<open>allVectors\<close> holds the embedding
  of chunk \<open>i\<close> at index \<open>i\<close>, and the points built from it pair vector \<open>i\<close> with
  the text of chunk \<open>i\<close>, wherever the batch boundaries fall.
\<close>

theorem batching_when_service_reliable:
  assumes "\<forall>k b. requestJinaEmbeddings (jina sv k b)
                   = Inr (Data (map (\<lambda>t. Item (Some (E t))) b))"
  shows "\<exists>r. embed_batches sv chunks 0 \<lparr>allVectors = [], trace = tr\<rparr> = Inr r
           \<and> count_requests (trace r) = count_requests tr + (length chunks + 7) div 8
           \<and> allVectors r = map (\<lambda>c. Some (E c)) chunks
           \<and> map (\<lambda>p. (vector p, payload_text p)) (make_points sv a chunks (allVectors r))
               = map (\<lambda>c. (Some (E c), Some c)) chunks"
proof -
  from assms have ok: "\<And>k b. requestJinaEmbeddings (jina sv k b)
                   = Inr (Data (map (\<lambda>t. Item (Some (E t))) b))"
    by simp
  from embed_batches_reliable [of sv E chunks 0 "\<lparr>allVectors = [], trace = tr\<rparr>", OF ok]
  obtain r where r: "embed_batches sv chunks 0 \<lparr>allVectors = [], trace = tr\<rparr> = Inr r"
    "allVectors r = map (\<lambda>c. Some (E c)) chunks"
    "count_requests (trace r) = count_requests tr + (length chunks + 7) div 8"
    by auto
  have "map (\<lambda>p. (vector p, payload_text p)) (make_points sv a chunks (allVectors r))
               = map (\<lambda>c. (Some (E c), Some c)) chunks"
    unfolding r(2) by (rule make_points_pairs)
  with r show ?thesis
    by blast
qed

theorem batching_when_service_reliable_witness:
  "\<exists>r. embed_batches reliable_services nine_chunks 0 \<lparr>allVectors = [], trace = []\<rparr> = Inr r
      \<and> count_requests (trace r) = 2
      \<and> allVectors r = map Some nine_chunks
      \<and> map (\<lambda>p. (vector p, payload_text p))
            (make_points reliable_services hi_article nine_chunks (allVectors r))
          = map (\<lambda>c. (Some c, Some c)) nine_chunks"
proof -
  have ok: "\<forall>k b. requestJinaEmbeddings (jina reliable_services k b)
                  = Inr (Data (map (\<lambda>t. Item (Some ((\<lambda>t. t) t))) b))"
    by (simp add: reliable_services_def echo_reply_def isOk_def)
  have n: "count_requests [] + (length nine_chunks + 7) div 8 = 2"
    by (simp add: nine_chunks_def count_requests_def)
  from batching_when_service_reliable [OF ok, of nine_chunks "[]" hi_article]
  show ?thesis
    unfolding n .
qed

text \<open>
  Claim C9 as stated fails: a failed request is retried, so the number of requests can
  exceed \<open>ceil(N/8)\<close>. With a service whose first request fails, the article with the
  one chunk \<open>Hi.\<close> is ingested with two embedding requests.
\<close>

theorem batch_call_count_counterexample:
  "process_article once_failing_services hi_article []
     = Inr \<lparr>allVectors = [Some (js ''Hi.'')],
            trace = [JinaRequest [js ''Hi.''], Sleep 500, JinaRequest [js ''Hi.''], Sleep 200,
                     Upsert [\<lparr>point_id = js ''id'', vector = Some (js ''Hi.''),
                              payload_text = Some (js ''Hi.''),
                              payload_article_title = js ''Greeting'',
                              payload_article_url = js ''http://a/1''\<rparr>],
                     Sleep 100]\<rparr>
   \<and> length (chunkText (content hi_article) default_chunkSize) = 1
   \<and> count_requests
         [JinaRequest [js ''Hi.''], Sleep 500, JinaRequest [js ''Hi.''], Sleep 200,
          Upsert [\<lparr>point_id = js ''id'', vector = Some (js ''Hi.''),
                   payload_text = Some (js ''Hi.''),
                   payload_article_title = js ''Greeting'',
                   payload_article_url = js ''http://a/1''\<rparr>],
          Sleep 100]
       \<noteq> (1 + 7) div 8"
  by code_simp

text \<open>
  Claim C6 says that a response with fewer embeddings than submitted texts makes the
  embedding call fail. In the ingestion script it does not: for two texts and a response
  with status 200 and one embedding, \<open>requestJinaEmbeddings\<close> resolves, and the batch loop
  ends normally with one vector for two chunks. The chat server's \<open>getJinaEmbeddings\<close>
  does reject a response without an embedding.
\<close>

theorem short_response_accepted:
  "requestJinaEmbeddings (jina short_services 0 [js ''Hi.'', js ''Yo.''])
     = Inr (Data [Item (Some (js ''v''))])
   \<and> embed_batches short_services [js ''Hi.'', js ''Yo.''] 0 \<lparr>allVectors = [], trace = []\<rparr>
     = Inr \<lparr>allVectors = [Some (js ''v'')],
            trace = [JinaRequest [js ''Hi.'', js ''Yo.''], Sleep 200]\<rparr>
   \<and> getJinaEmbeddings (Http 200 (Some (Data []))) = (Inl MissingData :: err + jsstring)"
  by code_simp

section \<open>Properties of the chat server\<close>

lemma rPush_ok:
  "redis_ok be (count_redis (calls s)) \<Longrightarrow>
   rPush be key v s
     = Inr (s\<lparr>redis := (redis s)(key := redis s key @ [v]), calls := calls s @ [RPush key v]\<rparr>)"
  by (simp add: rPush_def Let_def)

lemma rPush_fails:
  "\<not> redis_ok be (count_redis (calls s)) \<Longrightarrow>
   rPush be key v s = Inl (RedisError, s\<lparr>calls := calls s @ [RPush key v]\<rparr>)"
  by (simp add: rPush_def Let_def)

lemma rPush_Inr:
  "rPush be key v s = Inr s' \<Longrightarrow>
   redis_ok be (count_redis (calls s))
   \<and> s' = s\<lparr>redis := (redis s)(key := redis s key @ [v]), calls := calls s @ [RPush key v]\<rparr>"
  by (auto simp: rPush_def Let_def split: if_splits)

text \<open>The state after the generation call, when the first three stages succeed.\<close>

lemma chat_try_generated:
  assumes "getJinaEmbeddings (embed_reply be q) = Inr v"
    and "search_reply be v = Inr hits"
    and "payload_texts hits = Some texts"
    and "generate_reply be (build_prompt (join separator texts) q) = Inr answer"
  shows "chat_try be q key s =
     (let s3 = s\<lparr>calls := calls s @ [EmbedQuery q, Search,
                                       Generate (build_prompt (join separator texts) q)]\<rparr> in
      case rPush be key (JSON_stringify \<lparr>sender = js ''user'', message_text = q\<rparr>) s3 of
        Inl f \<Rightarrow> Inl f
      | Inr s4 \<Rightarrow>
          (case rPush be key (JSON_stringify \<lparr>sender = js ''bot'', message_text = answer\<rparr>) s4 of
             Inl f \<Rightarrow> Inl f
           | Inr s5 \<Rightarrow> Inr (answer, s5)))"
  using assms by (simp add: chat_try_def Let_def)

lemma chat_try_ok:
  assumes "getJinaEmbeddings (embed_reply be q) = Inr v"
    and "search_reply be v = Inr hits"
    and "payload_texts hits = Some texts"
    and "generate_reply be (build_prompt (join separator texts) q) = Inr answer"
    and "redis_ok be (count_redis (calls s))"
    and "redis_ok be (Suc (count_redis (calls s)))"
  shows "chat_try be q key s =
     Inr (answer,
          s\<lparr>redis := (redis s)(key := redis s key
                        @ [JSON_stringify \<lparr>sender = js ''user'', message_text = q\<rparr>,
                           JSON_stringify \<lparr>sender = js ''bot'', message_text = answer\<rparr>]),
            calls := calls s @ [EmbedQuery q, Search,
                       Generate (build_prompt (join separator texts) q),
                       RPush key (JSON_stringify \<lparr>sender = js ''user'', message_text = q\<rparr>),
                       RPush key (JSON_stringify \<lparr>sender = js ''bot'', message_text = answer\<rparr>)]\<rparr>)"
proof -
  let ?p = "build_prompt (join separator texts) q"
  let ?u = "JSON_stringify \<lparr>sender = js ''user'', message_text = q\<rparr>"
  let ?b = "JSON_stringify \<lparr>sender = js ''bot'', message_text = answer\<rparr>"
  let ?s3 = "s\<lparr>calls := calls s @ [EmbedQuery q, Search, Generate ?p]\<rparr>"
  let ?s4 = "s\<lparr>redis := (redis s)(key := redis s key @ [?u]),
                calls := calls s @ [EmbedQuery q, Search, Generate ?p, RPush key ?u]\<rparr>"
  let ?s5 = "s\<lparr>redis := (redis s)(key := redis s key @ [?u, ?b]),
                calls := calls s @ [EmbedQuery q, Search, Generate ?p, RPush key ?u,
                                    RPush key ?b]\<rparr>"
  have "redis_ok be (count_redis (calls ?s3))"
    using assms(5) by (simp add: count_redis_def)
  from rPush_ok [OF this, of key ?u] have 1: "rPush be key ?u ?s3 = Inr ?s4"
    by simp
  have "redis_ok be (count_redis (calls ?s4))"
    using assms(6) by (simp add: count_redis_def)
  from rPush_ok [OF this, of key ?b] have 2: "rPush be key ?b ?s4 = Inr ?s5"
    by simp
  show ?thesis
    by (simp add: chat_try_generated [OF assms(1-4)] 1 2)
qed

lemma chat_try_bot_push_fails:
  assumes "getJinaEmbeddings (embed_reply be q) = Inr v"
    and "search_reply be v = Inr hits"
    and "payload_texts hits = Some texts"
    and "generate_reply be (build_prompt (join separator texts) q) = Inr answer"
    and "redis_ok be (count_redis (calls s))"
    and "\<not> redis_ok be (Suc (count_redis (calls s)))"
  shows "chat_try be q key s =
     Inl (RedisError,
          s\<lparr>redis := (redis s)(key := redis s key
                        @ [JSON_stringify \<lparr>sender = js ''user'', message_text = q\<rparr>]),
            calls := calls s @ [EmbedQuery q, Search,
                       Generate (build_prompt (join separator texts) q),
                       RPush key (JSON_stringify \<lparr>sender = js ''user'', message_text = q\<rparr>),
                       RPush key (JSON_stringify \<lparr>sender = js ''bot'', message_text = answer\<rparr>)]\<rparr>)"
proof -
  let ?p = "build_prompt (join separator texts) q"
  let ?u = "JSON_stringify \<lparr>sender = js ''user'', message_text = q\<rparr>"
  let ?b = "JSON_stringify \<lparr>sender = js ''bot'', message_text = answer\<rparr>"
  let ?s3 = "s\<lparr>calls := calls s @ [EmbedQuery q, Search, Generate ?p]\<rparr>"
  let ?s4 = "s\<lparr>redis := (redis s)(key := redis s key @ [?u]),
                calls := calls s @ [EmbedQuery q, Search, Generate ?p, RPush key ?u]\<rparr>"
  let ?s5 = "s\<lparr>redis := (redis s)(key := redis s key @ [?u]),
                calls := calls s @ [EmbedQuery q, Search, Generate ?p, RPush key ?u,
                                    RPush key ?b]\<rparr>"
  have "redis_ok be (count_redis (calls ?s3))"
    using assms(5) by (simp add: count_redis_def)
  from rPush_ok [OF this, of key ?u] have 1: "rPush be key ?u ?s3 = Inr ?s4"
    by simp
  have "\<not> redis_ok be (count_redis (calls ?s4))"
    using assms(6) by (simp add: count_redis_def)
  from rPush_fails [OF this, of key ?b] have 2: "rPush be key ?b ?s4 = Inl (RedisError, ?s5)"
    by simp
  show ?thesis
    by (simp add: chat_try_generated [OF assms(1-4)] 1 2)
qed

text \<open>What a successful run of the \<open>try\<close> block implies.\<close>

lemma chat_try_Inr:
  assumes "chat_try be q key s = Inr (answer, s')"
  shows "\<exists>v hits texts.
           getJinaEmbeddings (embed_reply be q) = Inr v
         \<and> search_reply be v = Inr hits
         \<and> payload_texts hits = Some texts
         \<and> generate_reply be (build_prompt (join separator texts) q) = Inr answer
         \<and> redis_ok be (count_redis (calls s))
         \<and> redis_ok be (Suc (count_redis (calls s)))"
proof -
  from assms obtain v where v: "getJinaEmbeddings (embed_reply be q) = Inr v"
    by (cases "getJinaEmbeddings (embed_reply be q)") (simp_all add: chat_try_def Let_def)
  from assms v obtain hits where hits: "search_reply be v = Inr hits"
    by (cases "search_reply be v") (simp_all add: chat_try_def Let_def)
  from assms v hits obtain texts where texts: "payload_texts hits = Some texts"
    by (cases "payload_texts hits") (simp_all add: chat_try_def Let_def)
  from assms v hits texts obtain a where
    a: "generate_reply be (build_prompt (join separator texts) q) = Inr a"
    by (cases "generate_reply be (build_prompt (join separator texts) q)")
      (simp_all add: chat_try_def Let_def)
  let ?s3 = "s\<lparr>calls := calls s @ [EmbedQuery q, Search,
                                    Generate (build_prompt (join separator texts) q)]\<rparr>"
  let ?u = "JSON_stringify \<lparr>sender = js ''user'', message_text = q\<rparr>"
  let ?b = "JSON_stringify \<lparr>sender = js ''bot'', message_text = a\<rparr>"
  note run = assms [unfolded chat_try_generated [OF v hits texts a] Let_def]
  from run obtain s4 where s4: "rPush be key ?u ?s3 = Inr s4"
    by (cases "rPush be key ?u ?s3") simp_all
  from run s4 obtain s5 where s5: "rPush be key ?b s4 = Inr s5"
    by (cases "rPush be key ?b s4") simp_all
  from run s4 s5 have eq: "a = answer"
    by simp
  from rPush_Inr [OF s4] have ok1: "redis_ok be (count_redis (calls s))"
    and s4_eq: "calls s4 = calls ?s3 @ [RPush key ?u]"
    by (simp_all add: count_redis_def)
  from rPush_Inr [OF s5] have "redis_ok be (count_redis (calls s4))"
    by simp
  then have ok2: "redis_ok be (Suc (count_redis (calls s)))"
    unfolding s4_eq by (simp add: count_redis_def)
  from v hits texts a eq ok1 ok2 show ?thesis
    by blast
qed

lemma post_chat_valid:
  "query req = Some q \<Longrightarrow> q \<noteq> [] \<Longrightarrow>
   post_chat be req s =
     (case chat_try be q (historyKey (resolve_session be req)) s of
        Inl (e, s') \<Rightarrow> (ServerError processing_failed, s')
      | Inr (finalAnswer, s') \<Rightarrow> (ChatReply finalAnswer (resolve_session be req), s'))"
  by (simp add: post_chat_def Let_def)





lemma post_chat_ChatReply:
  assumes "fst (post_chat be req s) = ChatReply answer sid"
  shows "\<exists>q s'. query req = Some q \<and> q \<noteq> [] \<and> sid = resolve_session be req
           \<and> chat_try be q (historyKey sid) s = Inr (answer, s')
           \<and> post_chat be req s = (ChatReply answer sid, s')"
proof (cases "query req")
  case None
  with assms show ?thesis
    by (simp add: post_chat_def)
next
  case (Some q)
  show ?thesis
  proof (cases "q = []")
    case True
    with Some assms show ?thesis
      by (simp add: post_chat_def)
  next
    case False
    note valid = post_chat_valid [OF Some False, of be s]
    show ?thesis
    proof (cases "chat_try be q (historyKey (resolve_session be req)) s")
      case (Inl f)
      with assms valid show ?thesis
        by (cases f) simp
    next
      case (Inr p)
      obtain a s' where p: "p = (a, s')"
        by (cases p)
      with assms valid Inr have "a = answer" and "sid = resolve_session be req"
        by simp_all
      with Some False Inr p valid show ?thesis
        by simp
    qed
  qed
qed

lemma post_chat_not_ChatReply:
  assumes "query req = Some q" and "q \<noteq> []"
    and "\<forall>answer sid. fst (post_chat be req s) \<noteq> ChatReply answer sid"
  shows "fst (post_chat be req s) = ServerError processing_failed"
proof (cases "chat_try be q (historyKey (resolve_session be req)) s")
  case (Inl f)
  then show ?thesis
    by (cases f) (simp add: post_chat_valid [OF assms(1,2)])
next
  case (Inr p)
  obtain a s' where "p = (a, s')"
    by (cases p)
  with Inr have "fst (post_chat be req s) = ChatReply a (resolve_session be req)"
    by (simp add: post_chat_valid [OF assms(1,2)])
  with assms(3) show ?thesis
    by simp
qed

text \<open>
  Claim C7: when the chat route returns an answer, every stage has succeeded, both Redis
  appends included, and the list of the session ends with the user message and the bot
  message; and for a request with a non-empty query, whenever no answer is returned (a
  stage has thrown), the response is the generic status 500 message.
\<close>

theorem answer_needs_both_appends:
  "(fst (post_chat be req s) = ChatReply answer sid \<longrightarrow>
      (\<exists>q v hits texts.
          query req = Some q \<and> q \<noteq> [] \<and> sid = resolve_session be req
        \<and> getJinaEmbeddings (embed_reply be q) = Inr v
        \<and> search_reply be v = Inr hits
        \<and> payload_texts hits = Some texts
        \<and> generate_reply be (build_prompt (join separator texts) q) = Inr answer
        \<and> redis_ok be (count_redis (calls s))
        \<and> redis_ok be (Suc (count_redis (calls s)))
        \<and> redis (snd (post_chat be req s)) (historyKey sid)
            = redis s (historyKey sid)
              @ [JSON_stringify \<lparr>sender = js ''user'', message_text = q\<rparr>,
                 JSON_stringify \<lparr>sender = js ''bot'', message_text = answer\<rparr>]))
   \<and> ((\<exists>q. query req = Some q \<and> q \<noteq> [])
        \<and> (\<forall>answer sid. fst (post_chat be req s) \<noteq> ChatReply answer sid)
      \<longrightarrow> fst (post_chat be req s) = ServerError processing_failed)"
proof (intro conjI impI)
  assume reply: "fst (post_chat be req s) = ChatReply answer sid"
  from post_chat_ChatReply [OF reply] obtain q s' where
    q: "query req = Some q" "q \<noteq> []" "sid = resolve_session be req"
    and run: "chat_try be q (historyKey sid) s = Inr (answer, s')"
    and post: "post_chat be req s = (ChatReply answer sid, s')"
    by blast
  from chat_try_Inr [OF run] obtain v hits texts where
    st: "getJinaEmbeddings (embed_reply be q) = Inr v"
      "search_reply be v = Inr hits"
      "payload_texts hits = Some texts"
      "generate_reply be (build_prompt (join separator texts) q) = Inr answer"
      "redis_ok be (count_redis (calls s))"
      "redis_ok be (Suc (count_redis (calls s)))"
    by blast
  from chat_try_ok [OF st, of "historyKey sid"] run
  have "redis s' (historyKey sid)
      = redis s (historyKey sid)
        @ [JSON_stringify \<lparr>sender = js ''user'', message_text = q\<rparr>,
           JSON_stringify \<lparr>sender = js ''bot'', message_text = answer\<rparr>]"
    by auto
  then have "redis (snd (post_chat be req s)) (historyKey sid)
      = redis s (historyKey sid)
        @ [JSON_stringify \<lparr>sender = js ''user'', message_text = q\<rparr>,
           JSON_stringify \<lparr>sender = js ''bot'', message_text = answer\<rparr>]"
    by (simp add: post)
  with q st show "\<exists>q v hits texts.
          query req = Some q \<and> q \<noteq> [] \<and> sid = resolve_session be req
        \<and> getJinaEmbeddings (embed_reply be q) = Inr v
        \<and> search_reply be v = Inr hits
        \<and> payload_texts hits = Some texts
        \<and> generate_reply be (build_prompt (join separator texts) q) = Inr answer
        \<and> redis_ok be (count_redis (calls s))
        \<and> redis_ok be (Suc (count_redis (calls s)))
        \<and> redis (snd (post_chat be req s)) (historyKey sid)
            = redis s (historyKey sid)
              @ [JSON_stringify \<lparr>sender = js ''user'', message_text = q\<rparr>,
                 JSON_stringify \<lparr>sender = js ''bot'', message_text = answer\<rparr>]"
    by (intro exI [of _ q] exI [of _ v] exI [of _ hits] exI [of _ texts] conjI)
next
  assume "(\<exists>q. query req = Some q \<and> q \<noteq> [])
        \<and> (\<forall>answer sid. fst (post_chat be req s) \<noteq> ChatReply answer sid)"
  then obtain q where "query req = Some q" and "q \<noteq> []"
    and "\<forall>answer sid. fst (post_chat be req s) \<noteq> ChatReply answer sid"
    by blast
  then show "fst (post_chat be req s) = ServerError processing_failed"
    by (rule post_chat_not_ChatReply)
qed

theorem answer_needs_both_appends_witness:
  "fst (post_chat happy_backend today_request fresh_server)
     = ChatReply (js ''It rained.'') (js ''uuid-1'')
   \<and> redis (snd (post_chat happy_backend today_request fresh_server)) (historyKey (js ''uuid-1''))
     = [JSON_stringify \<lparr>sender = js ''user'', message_text = js ''What happened today?''\<rparr>,
        JSON_stringify \<lparr>sender = js ''bot'', message_text = js ''It rained.''\<rparr>]
   \<and> fst (post_chat bot_push_failing_backend today_request fresh_server)
     = ServerError processing_failed"
proof (intro conjI)
  show reply: "fst (post_chat happy_backend today_request fresh_server)
      = ChatReply (js ''It rained.'') (js ''uuid-1'')"
    by code_simp
  from answer_needs_both_appends [of happy_backend today_request fresh_server
      "js ''It rained.''" "js ''uuid-1''", THEN conjunct1, rule_format, OF reply]
  obtain q where "query today_request = Some q"
    and "redis (snd (post_chat happy_backend today_request fresh_server))
           (historyKey (js ''uuid-1''))
         = redis fresh_server (historyKey (js ''uuid-1''))
           @ [JSON_stringify \<lparr>sender = js ''user'', message_text = q\<rparr>,
              JSON_stringify \<lparr>sender = js ''bot'', message_text = js ''It rained.''\<rparr>]"
    by blast
  then show "redis (snd (post_chat happy_backend today_request fresh_server))
        (historyKey (js ''uuid-1''))
      = [JSON_stringify \<lparr>sender = js ''user'', message_text = js ''What happened today?''\<rparr>,
         JSON_stringify \<lparr>sender = js ''bot'', message_text = js ''It rained.''\<rparr>]"
    by (simp add: today_request_def fresh_server_def)
next
  have "fst (post_chat bot_push_failing_backend today_request fresh_server)
      = ServerError processing_failed"
    by code_simp
  then have no_answer: "\<forall>answer sid.
      fst (post_chat bot_push_failing_backend today_request fresh_server) \<noteq> ChatReply answer sid"
    by simp
  have valid: "\<exists>q. query today_request = Some q \<and> q \<noteq> []"
    by (simp add: today_request_def js_def)
  from answer_needs_both_appends [of bot_push_failing_backend today_request fresh_server,
      THEN conjunct2, rule_format, OF conjI, OF valid no_answer]
  show "fst (post_chat bot_push_failing_backend today_request fresh_server)
      = ServerError processing_failed" .
qed

text \<open>
  Claim C10: the two appends are not atomic. When the append of the user message succeeds
  and the append of the bot message fails, the route answers with the generic status 500
  message, and the list of the session keeps the user message as its last element, without
  a bot message: a history of even length becomes one of odd length.
\<close>

theorem bot_append_failure_keeps_user_message:
  assumes "query req = Some q" and "q \<noteq> []"
    and "getJinaEmbeddings (embed_reply be q) = Inr v"
    and "search_reply be v = Inr hits"
    and "payload_texts hits = Some texts"
    and "generate_reply be (build_prompt (join separator texts) q) = Inr answer"
    and "redis_ok be (count_redis (calls s))"
    and "\<not> redis_ok be (Suc (count_redis (calls s)))"
  shows "fst (post_chat be req s) = ServerError processing_failed
     \<and> redis (snd (post_chat be req s)) (historyKey (resolve_session be req))
         = redis s (historyKey (resolve_session be req))
           @ [JSON_stringify \<lparr>sender = js ''user'', message_text = q\<rparr>]
     \<and> (even (length (redis s (historyKey (resolve_session be req))))
        \<longrightarrow> odd (length (redis (snd (post_chat be req s))
                              (historyKey (resolve_session be req)))))"
proof -
  note run = chat_try_bot_push_fails [OF assms(3-8), of "historyKey (resolve_session be req)"]
  show ?thesis
    by (simp add: post_chat_valid [OF assms(1,2)] run)
qed

theorem bot_append_failure_keeps_user_message_witness:
  "fst (post_chat bot_push_failing_backend today_request fresh_server)
     = ServerError processing_failed
   \<and> redis (snd (post_chat bot_push_failing_backend today_request fresh_server))
        (historyKey (js ''uuid-1''))
     = [JSON_stringify \<lparr>sender = js ''user'', message_text = js ''What happened today?''\<rparr>]
   \<and> odd (length (redis (snd (post_chat bot_push_failing_backend today_request fresh_server))
                    (historyKey (js ''uuid-1''))))"
  using bot_append_failure_keeps_user_message [of today_request "js ''What happened today?''"
      bot_push_failing_backend "js ''vec''"
      "[Some (js ''Snippet one.''), Some (js ''Snippet two.'')]"
      "[js ''Snippet one.'', js ''Snippet two.'']" "js ''It rained.''" fresh_server]
  by (simp add: today_request_def bot_push_failing_backend_def happy_backend_def
      fresh_server_def isOk_def resolve_session_def count_redis_def js_def)

end
